theory Spec2Isabelle
  imports Complex_Main
begin

section \<open>Neighbourhood graphs of a regular grid (\<^verbatim>\<open>deforestprob/cellneigh.py\<close>)\<close>

text \<open>
  The module has two functions, \<^verbatim>\<open>cellneigh\<close> (all cells of the grid) and
  \<^verbatim>\<open>cellneigh_ctry\<close> (only the cells of a country mask). Both resolve a region,
  derive the grid dimensions from the cell size and then run four nested loops. Each
  part of the source is one definition here; the two functions compose them in the
  source's order.

  Python integers are \<open>int\<close>. Coordinates and the cell size are floating-point numbers in
  the source (the geotransform of a raster is a tuple of floats); a float is written
  as the real number it denotes. The arithmetic that gives the grid dimensions (lines
  52-54: a product, two differences, two quotients, \<^verbatim>\<open>np.ceil\<close>, \<^verbatim>\<open>np.int\<close>) rounds and
  can overflow; it is not computed in the model. Its result is the parameter
  \<open>ceildiv\<close> of the model, so what is proved for every \<open>ceildiv\<close> holds for the
  values Python computes. Exceptions are values of \<open>error\<close>; lines printed
  on standard output are values of \<open>message\<close>, returned beside the outcome. What GDAL
  returns (the metadata of the raster, the rasterized mask) is an input of the model.
\<close>

subsection \<open>Errors, output, inputs\<close>

datatype error =
    SystemExit int
  | ZeroDivisionError
  | IndexError
  | AttributeError
  | ValueError
  | OverflowError

text \<open>
  \<open>Line s\<close> is \<^verbatim>\<open>print(s)\<close> of a fixed text. \<open>Compute_number c\<close> is
  \<^verbatim>\<open>print("Compute number of %d x %d km spatial cells" % (csize, csize))\<close> and
  \<open>Cells ncell nrow ncol\<close> is \<^verbatim>\<open>print("... %d cells (%d x %d)" % (ncell, nrow, ncol))\<close>;
  they keep the numbers that are formatted.
\<close>

datatype message =
    Line string
  | Compute_number real
  | Cells int int int

text \<open>
  What \<^verbatim>\<open>gdal.Open(raster)\<close> gives for a raster that is not \<^verbatim>\<open>None\<close>: the two sizes and
  the six coefficients of \<^verbatim>\<open>GetGeoTransform()\<close>. Reading the file belongs to GDAL.
\<close>

record raster =
  RasterXSize :: int
  RasterYSize :: int
  gt_0 :: real
  gt_1 :: real
  gt_2 :: real
  gt_3 :: real
  gt_4 :: real
  gt_5 :: real

type_synonym bounds = "real \<times> real \<times> real \<times> real"

type_synonym 'a outcome = "message list \<times> (error + 'a)"

definition bind_out :: "'a outcome \<Rightarrow> ('a \<Rightarrow> 'b outcome) \<Rightarrow> 'b outcome" where
  "bind_out m f =
     (case m of
        (out, Inl e) \<Rightarrow> (out, Inl e)
      | (out, Inr x) \<Rightarrow> (case f x of (out', r) \<Rightarrow> (out @ out', r)))"

subsection \<open>Region (lines 31-47 and 97-113)\<close>

text \<open>
  \<open>(Xmin, Xmax, Ymin, Ymax)\<close>. The raster is tested first; the region is read only
  when there is no raster. \<^verbatim>\<open>region[k]\<close> raises \<^verbatim>\<open>IndexError\<close> on a sequence with fewer
  than four entries. With neither, the message is printed and \<^verbatim>\<open>sys.exit(1)\<close> raises
  \<^verbatim>\<open>SystemExit\<close>.
\<close>

definition resolve_region :: "raster option \<Rightarrow> real list option \<Rightarrow> bounds outcome" where
  "resolve_region raster region =
     (case raster of
        Some r \<Rightarrow>
          (let ncol_r = RasterXSize r;
               nrow_r = RasterYSize r;
               Xmin = gt_0 r;
               Xmax = gt_0 r + gt_1 r * real_of_int ncol_r;
               Ymin = gt_3 r + gt_5 r * real_of_int nrow_r;
               Ymax = gt_3 r
           in ([], Inr (Xmin, Xmax, Ymin, Ymax)))
      | None \<Rightarrow>
          (case region of
             Some reg \<Rightarrow>
               (if 4 \<le> length reg
                then ([], Inr (reg ! 0, reg ! 1, reg ! 2, reg ! 3))
                else ([], Inl IndexError))
           | None \<Rightarrow>
               ([Line ''raster or region must be specified''], Inl (SystemExit 1))))"

subsection \<open>Grid dimensions (lines 49-56 and 115-122)\<close>

text \<open>
  The cell size in km is multiplied by 1000 and divides both extents. Python raises
  \<^verbatim>\<open>ZeroDivisionError\<close> when the divisor is zero, which it is exactly when the cell
  size is zero. There is no other test of \<^verbatim>\<open>csize\<close>.

  For a cell size \<open>c\<close> that is not zero, \<open>ceildiv lo hi c\<close> stands for what Python
  makes of \<^verbatim>\<open>np.int(np.ceil((hi - lo) / (c * 1000)))\<close>: an integer, or the exception
  that \<^verbatim>\<open>np.int\<close> raises on a quotient that is not finite (\<^verbatim>\<open>OverflowError\<close> for a
  quotient that overflowed). The columns are computed before the rows, and the
  second line is printed only after both.
\<close>

definition grid_dims ::
  "(real \<Rightarrow> real \<Rightarrow> real \<Rightarrow> error + int) \<Rightarrow> bounds \<Rightarrow> real \<Rightarrow> (int \<times> int) outcome" where
  "grid_dims ceildiv b csize =
     (case b of (Xmin, Xmax, Ymin, Ymax) \<Rightarrow>
        if csize = 0 then ([Compute_number csize], Inl ZeroDivisionError)
        else
          (case ceildiv Xmin Xmax csize of
             Inl e \<Rightarrow> ([Compute_number csize], Inl e)
           | Inr ncol \<Rightarrow>
               (case ceildiv Ymin Ymax csize of
                  Inl e \<Rightarrow> ([Compute_number csize], Inl e)
                | Inr nrow \<Rightarrow>
                    (let ncell = ncol * nrow
                     in ([Compute_number csize, Cells ncell nrow ncol], Inr (ncol, nrow))))))"

text \<open>
  \<open>ceildiv_exact\<close> is the value of that expression where no operation rounds: it is
  what Python computes when the differences, the product and the two quotients are
  integers below \<open>2 ^ 53\<close>. It is used at such inputs only, in the examples.
\<close>

definition ceildiv_exact :: "real \<Rightarrow> real \<Rightarrow> real \<Rightarrow> error + int" where
  "ceildiv_exact lo hi c = Inr \<lceil>(hi - lo) / (c * 1000)\<rceil>"

subsection \<open>The candidate window\<close>

text \<open>
  \<^verbatim>\<open>around = np.arange(-rank, rank + 1)\<close>, and
  \<^verbatim>\<open>I = i + around; Iprim = I[(I >= 0) & (I < nrow)]\<close>.
\<close>

definition around :: "int \<Rightarrow> int list" where
  "around rank = [- rank..rank]"

definition window :: "int list \<Rightarrow> int \<Rightarrow> int \<Rightarrow> int list" where
  "window ar i n = filter (\<lambda>v. 0 \<le> v \<and> v < n) (map (\<lambda>a. i + a) ar)"

subsection \<open>The loops of \<^verbatim>\<open>cellneigh\<close> (lines 60-76)\<close>

fun loop_cx :: "int \<Rightarrow> int \<Rightarrow> int \<Rightarrow> int \<Rightarrow> int list \<Rightarrow> int list \<Rightarrow> int list" where
  "loop_cx ncol i j cy [] adj = adj"
| "loop_cx ncol i j cy (cx # Jprim) adj =
     loop_cx ncol i j cy Jprim
       (if \<not> (cy = i \<and> cx = j) then adj @ [cy * ncol + cx] else adj)"

fun loop_cy :: "int \<Rightarrow> int \<Rightarrow> int \<Rightarrow> int list \<Rightarrow> int list \<Rightarrow> int list \<Rightarrow> int list" where
  "loop_cy ncol i j [] Jprim adj = adj"
| "loop_cy ncol i j (cy # Iprim) Jprim adj =
     loop_cy ncol i j Iprim Jprim (loop_cx ncol i j cy Jprim adj)"

fun loop_j ::
  "int \<Rightarrow> int \<Rightarrow> int list \<Rightarrow> int \<Rightarrow> int list \<Rightarrow> int list \<times> int list \<Rightarrow> int list \<times> int list" where
  "loop_j ncol nrow ar i [] (nneigh, adj) = (nneigh, adj)"
| "loop_j ncol nrow ar i (j # js) (nneigh, adj) =
     (let Iprim = window ar i nrow;
          Jprim = window ar j ncol
      in loop_j ncol nrow ar i js
           (nneigh @ [int (length Iprim) * int (length Jprim) - 1],
            loop_cy ncol i j Iprim Jprim adj))"

fun loop_i ::
  "int \<Rightarrow> int \<Rightarrow> int list \<Rightarrow> int list \<Rightarrow> int list \<times> int list \<Rightarrow> int list \<times> int list" where
  "loop_i ncol nrow ar [] acc = acc"
| "loop_i ncol nrow ar (i # is) acc =
     loop_i ncol nrow ar is (loop_j ncol nrow ar i [0..ncol - 1] acc)"

definition cellneigh_graph :: "int \<Rightarrow> int \<Rightarrow> int \<Rightarrow> int list \<times> int list" where
  "cellneigh_graph ncol nrow rank =
     loop_i ncol nrow (around rank) [0..nrow - 1] ([], [])"

definition cellneigh ::
  "(real \<Rightarrow> real \<Rightarrow> real \<Rightarrow> error + int) \<Rightarrow> raster option \<Rightarrow> real list option \<Rightarrow> real \<Rightarrow> int
     \<Rightarrow> (int list \<times> int list) outcome" where
  "cellneigh ceildiv raster region csize rank =
     bind_out (resolve_region raster region) (\<lambda>b.
     bind_out (grid_dims ceildiv b csize) (\<lambda>(ncol, nrow).
       ([Line ''Identify adjacent cells and compute number of neighbors''],
        Inr (cellneigh_graph ncol nrow rank))))"

subsection \<open>The mask of \<^verbatim>\<open>cellneigh_ctry\<close> (lines 125-136)\<close>

text \<open>
  The mask is the two-dimensional array that \<^verbatim>\<open>ds.ReadAsArray()\<close> returns, a list of
  rows here. \<^verbatim>\<open>mask[a, b]\<close> reads row \<open>a\<close>, column \<open>b\<close>; numpy counts a negative
  index from the end and raises \<^verbatim>\<open>IndexError\<close> outside the array.
\<close>

type_synonym mask = "int list list"

definition py_index :: "'a list \<Rightarrow> int \<Rightarrow> error + 'a" where
  "py_index xs k =
     (let n = int (length xs);
          k' = (if k < 0 then k + n else k)
      in if 0 \<le> k' \<and> k' < n then Inr (xs ! nat k') else Inl IndexError)"

definition mask_at :: "mask \<Rightarrow> int \<Rightarrow> int \<Rightarrow> error + int" where
  "mask_at msk a b =
     (case py_index msk a of
        Inl e \<Rightarrow> Inl e
      | Inr row \<Rightarrow> py_index row b)"

text \<open>
  \<^verbatim>\<open>y_in, x_in = np.where(mask == 1)\<close>: the rows and the columns of the entries equal
  to 1, in row-major order. \<^verbatim>\<open>cell_in = y_in * ncol + x_in\<close> is elementwise.
\<close>

definition np_where :: "mask \<Rightarrow> int list \<times> int list" where
  "np_where msk =
     (let hits = [(y, x). y \<leftarrow> [0..int (length msk) - 1],
                          x \<leftarrow> [0..int (length (msk ! nat y)) - 1],
                          msk ! nat y ! nat x = 1]
      in (map fst hits, map snd hits))"

definition included_cells :: "int \<Rightarrow> mask \<Rightarrow> int list" where
  "included_cells ncol msk =
     (case np_where msk of (y_in, x_in) \<Rightarrow> map (\<lambda>(y, x). y * ncol + x) (zip y_in x_in))"

subsection \<open>The loops of \<^verbatim>\<open>cellneigh_ctry\<close> (lines 140-159)\<close>

text \<open>
  The test of a candidate is
  \<^verbatim>\<open>(not (cy == i and cx == j)) and (mask[cx, cy] == 1)\<close>: the mask is read only for
  a candidate other than the centre, at row \<open>cx\<close> and column \<open>cy\<close>.
\<close>

fun ctry_loop_cx ::
  "mask \<Rightarrow> int \<Rightarrow> int \<Rightarrow> int \<Rightarrow> int \<Rightarrow> int list \<Rightarrow> int list \<times> int \<Rightarrow> error + int list \<times> int" where
  "ctry_loop_cx msk ncol i j cy [] (adj, nneighbors) = Inr (adj, nneighbors)"
| "ctry_loop_cx msk ncol i j cy (cx # Jprim) (adj, nneighbors) =
     (if \<not> (cy = i \<and> cx = j) then
        (case mask_at msk cx cy of
           Inl e \<Rightarrow> Inl e
         | Inr v \<Rightarrow>
             (if v = 1
              then ctry_loop_cx msk ncol i j cy Jprim (adj @ [cy * ncol + cx], nneighbors + 1)
              else ctry_loop_cx msk ncol i j cy Jprim (adj, nneighbors)))
      else ctry_loop_cx msk ncol i j cy Jprim (adj, nneighbors))"

fun ctry_loop_cy ::
  "mask \<Rightarrow> int \<Rightarrow> int \<Rightarrow> int \<Rightarrow> int list \<Rightarrow> int list \<Rightarrow> int list \<times> int \<Rightarrow> error + int list \<times> int" where
  "ctry_loop_cy msk ncol i j [] Jprim acc = Inr acc"
| "ctry_loop_cy msk ncol i j (cy # Iprim) Jprim acc =
     (case ctry_loop_cx msk ncol i j cy Jprim acc of
        Inl e \<Rightarrow> Inl e
      | Inr acc' \<Rightarrow> ctry_loop_cy msk ncol i j Iprim Jprim acc')"

fun ctry_loop_j ::
  "mask \<Rightarrow> int \<Rightarrow> int \<Rightarrow> int list \<Rightarrow> int \<Rightarrow> int list \<Rightarrow> int list \<times> int list
     \<Rightarrow> error + int list \<times> int list" where
  "ctry_loop_j msk ncol nrow ar i [] (nneigh, adj) = Inr (nneigh, adj)"
| "ctry_loop_j msk ncol nrow ar i (j # js) (nneigh, adj) =
     (case mask_at msk i j of
        Inl e \<Rightarrow> Inl e
      | Inr v \<Rightarrow>
          (if v = 1 then
             (let Iprim = window ar i nrow;
                  Jprim = window ar j ncol
              in case ctry_loop_cy msk ncol i j Iprim Jprim (adj, 0) of
                   Inl e \<Rightarrow> Inl e
                 | Inr (adj', nneighbors) \<Rightarrow>
                     ctry_loop_j msk ncol nrow ar i js (nneigh @ [nneighbors], adj'))
           else ctry_loop_j msk ncol nrow ar i js (nneigh, adj)))"

fun ctry_loop_i ::
  "mask \<Rightarrow> int \<Rightarrow> int \<Rightarrow> int list \<Rightarrow> int list \<Rightarrow> int list \<times> int list
     \<Rightarrow> error + int list \<times> int list" where
  "ctry_loop_i msk ncol nrow ar [] acc = Inr acc"
| "ctry_loop_i msk ncol nrow ar (i # is) acc =
     (case ctry_loop_j msk ncol nrow ar i [0..ncol - 1] acc of
        Inl e \<Rightarrow> Inl e
      | Inr acc' \<Rightarrow> ctry_loop_i msk ncol nrow ar is acc')"

definition ctry_scan :: "int \<Rightarrow> int \<Rightarrow> int \<Rightarrow> mask \<Rightarrow> error + int list \<times> int list" where
  "ctry_scan ncol nrow rank msk =
     ctry_loop_i msk ncol nrow (around rank) [0..nrow - 1] ([], [])"

subsection \<open>The translation \<^verbatim>\<open>[cell_in.index(i) for i in adj]\<close> (line 160)\<close>

text \<open>
  A comprehension stops at the first element whose expression raises, and evaluates
  nothing on an empty sequence.
\<close>

fun comprehension :: "('a \<Rightarrow> error + 'b) \<Rightarrow> 'a list \<Rightarrow> error + 'b list" where
  "comprehension f [] = Inr []"
| "comprehension f (x # xs) =
     (case f x of
        Inl e \<Rightarrow> Inl e
      | Inr y \<Rightarrow>
          (case comprehension f xs of
             Inl e \<Rightarrow> Inl e
           | Inr ys \<Rightarrow> Inr (y # ys)))"

text \<open>
  \<^verbatim>\<open>cell_in\<close> is the numpy array \<^verbatim>\<open>y_in * ncol + x_in\<close> (the two results of
  \<^verbatim>\<open>np.where\<close> are arrays, and so is their combination). \<^verbatim>\<open>index\<close> is a method of
  Python lists and tuples; \<^verbatim>\<open>numpy.ndarray\<close> has no attribute of that name. So
  \<^verbatim>\<open>cell_in.index(i)\<close> raises \<^verbatim>\<open>AttributeError\<close> when the attribute is looked up,
  whatever \<open>i\<close> is: this is \<open>ndarray_index\<close>, the call of the source. The comprehension
  evaluates it once for the first element of \<^verbatim>\<open>adj\<close>, so the function returns only when
  \<^verbatim>\<open>adj\<close> is empty.
\<close>

definition ndarray_index :: "int list \<Rightarrow> int \<Rightarrow> error + int" where
  "ndarray_index cell_in v = Inl AttributeError"

text \<open>
  For comparison, \<open>list_index\<close> is the same call on a Python list: the position of the
  first entry equal to \<open>v\<close>, \<^verbatim>\<open>ValueError\<close> when there is none. The source does not
  reach it; it is used below to show which results do not depend on the type of
  \<^verbatim>\<open>cell_in\<close>.
\<close>

fun list_index :: "int list \<Rightarrow> int \<Rightarrow> error + int" where
  "list_index [] v = Inl ValueError"
| "list_index (c # cs) v =
     (if c = v then Inr 0
      else (case list_index cs v of Inl e \<Rightarrow> Inl e | Inr k \<Rightarrow> Inr (k + 1)))"

definition cellneigh_ctry_graph ::
  "int \<Rightarrow> int \<Rightarrow> int \<Rightarrow> mask \<Rightarrow> error + int list \<times> int list \<times> int list" where
  "cellneigh_ctry_graph ncol nrow rank msk =
     (let cell_in = included_cells ncol msk in
      case ctry_scan ncol nrow rank msk of
        Inl e \<Rightarrow> Inl e
      | Inr (nneigh, adj) \<Rightarrow>
          (case comprehension (ndarray_index cell_in) adj of
             Inl e \<Rightarrow> Inl e
           | Inr adj_rank \<Rightarrow> Inr (nneigh, adj_rank, cell_in)))"

text \<open>
  \<^verbatim>\<open>cellneigh_ctry\<close>. \<open>rasterize\<close> stands for \<^verbatim>\<open>ogr.Open(vector)\<close>, \<^verbatim>\<open>gdal.Rasterize\<close>
  and \<^verbatim>\<open>ReadAsArray\<close>: from the cell size (the resolution is the cell size in metres)
  and the bounds it gives the mask.
\<close>

definition cellneigh_ctry ::
  "(real \<Rightarrow> real \<Rightarrow> real \<Rightarrow> error + int) \<Rightarrow> raster option \<Rightarrow> real list option
     \<Rightarrow> (real \<Rightarrow> bounds \<Rightarrow> mask) \<Rightarrow> real \<Rightarrow> int
     \<Rightarrow> (int list \<times> int list \<times> int list) outcome" where
  "cellneigh_ctry ceildiv raster region rasterize csize rank =
     bind_out (resolve_region raster region) (\<lambda>b.
     bind_out (grid_dims ceildiv b csize) (\<lambda>(ncol, nrow).
       ([Line ''Identify adjacent cells and compute number of neighbors''],
        cellneigh_ctry_graph ncol nrow rank (rasterize csize b))))"

subsection \<open>Segments of the flat adjacency list\<close>

text \<open>
  The counts cut the flat list into one segment per cell: the segment of the cell at
  position \<open>k\<close> starts after the segments of the cells before it and has
  \<open>nneigh ! k\<close> entries.
\<close>

definition segment :: "int list \<Rightarrow> 'a list \<Rightarrow> nat \<Rightarrow> 'a list" where
  "segment nneigh adj k =
     take (nat (nneigh ! k)) (drop (nat (sum_list (take k nneigh))) adj)"

subsection \<open>The loops as lists\<close>

text \<open>
  What the loops of \<^verbatim>\<open>cellneigh\<close> append, as lists: \<open>neigh_row\<close> for one candidate
  row, \<open>neigh\<close> for one cell, and the cells in the order the two outer loops visit
  them. \<open>cell_count\<close> is the count the code computes from the two window lengths.
\<close>

definition neigh_row :: "int \<Rightarrow> int \<Rightarrow> int \<Rightarrow> int \<Rightarrow> int list \<Rightarrow> int list" where
  "neigh_row ncol i j cy Jprim =
     map (\<lambda>cx. cy * ncol + cx) (filter (\<lambda>cx. \<not> (cy = i \<and> cx = j)) Jprim)"

definition neigh :: "int \<Rightarrow> int \<Rightarrow> int \<Rightarrow> int list \<Rightarrow> int list \<Rightarrow> int list" where
  "neigh ncol i j Iprim Jprim = concat (map (\<lambda>cy. neigh_row ncol i j cy Jprim) Iprim)"

definition cell_neigh :: "int \<Rightarrow> int \<Rightarrow> int list \<Rightarrow> int \<times> int \<Rightarrow> int list" where
  "cell_neigh ncol nrow ar c = neigh ncol (fst c) (snd c) (window ar (fst c) nrow) (window ar (snd c) ncol)"

definition cell_count :: "int \<Rightarrow> int \<Rightarrow> int list \<Rightarrow> int \<times> int \<Rightarrow> int" where
  "cell_count ncol nrow ar c =
     int (length (window ar (fst c) nrow)) * int (length (window ar (snd c) ncol)) - 1"

definition cells :: "int \<Rightarrow> int \<Rightarrow> (int \<times> int) list" where
  "cells ncol nrow = concat (map (\<lambda>i. map (\<lambda>j. (i, j)) [0..ncol - 1]) [0..nrow - 1])"

text \<open>
  The same for \<^verbatim>\<open>cellneigh_ctry\<close>: \<open>kept_row\<close> and \<open>kept\<close> are the candidates that pass
  the test of line 154, and \<open>ctry_cells\<close> are the cells that pass the test of line 145,
  in the order of the two outer loops.
\<close>

definition kept_row :: "mask \<Rightarrow> int \<Rightarrow> int \<Rightarrow> int \<Rightarrow> int \<Rightarrow> int list \<Rightarrow> int list" where
  "kept_row msk ncol i j cy Jprim =
     map (\<lambda>cx. cy * ncol + cx)
       (filter (\<lambda>cx. \<not> (cy = i \<and> cx = j) \<and> mask_at msk cx cy = Inr 1) Jprim)"

definition kept :: "mask \<Rightarrow> int \<Rightarrow> int \<Rightarrow> int \<Rightarrow> int list \<Rightarrow> int list \<Rightarrow> int list" where
  "kept msk ncol i j Iprim Jprim = concat (map (\<lambda>cy. kept_row msk ncol i j cy Jprim) Iprim)"

definition cell_kept :: "mask \<Rightarrow> int \<Rightarrow> int \<Rightarrow> int list \<Rightarrow> int \<times> int \<Rightarrow> int list" where
  "cell_kept msk ncol nrow ar c =
     kept msk ncol (fst c) (snd c) (window ar (fst c) nrow) (window ar (snd c) ncol)"

definition ctry_cells :: "mask \<Rightarrow> int \<Rightarrow> int \<Rightarrow> (int \<times> int) list" where
  "ctry_cells msk ncol nrow =
     concat (map (\<lambda>i. map (\<lambda>j. (i, j)) (filter (\<lambda>j. mask_at msk i j = Inr 1) [0..ncol - 1]))
               [0..nrow - 1])"

text \<open>
  A mask of the shape of the grid: \<open>nrow\<close> rows of \<open>ncol\<close> entries.
\<close>

definition mask_shape :: "mask \<Rightarrow> int \<Rightarrow> int \<Rightarrow> bool" where
  "mask_shape msk nrow ncol \<longleftrightarrow>
     int (length msk) = nrow \<and> list_all (\<lambda>row. int (length row) = ncol) msk"

section \<open>Properties\<close>

subsection \<open>Region and cell size\<close>

text \<open>
  C8. When neither a raster nor a region is given, both functions print
  "raster or region must be specified" and stop with \<^verbatim>\<open>sys.exit(1)\<close>: nothing else
  is printed, no region is substituted and no graph is returned.
\<close>

theorem neither_raster_nor_region_exits:
  "cellneigh ceildiv None None csize rank =
     ([Line ''raster or region must be specified''], Inl (SystemExit 1))
   \<and> cellneigh_ctry ceildiv None None rasterize csize rank =
     ([Line ''raster or region must be specified''], Inl (SystemExit 1))"
  by (simp add: cellneigh_def cellneigh_ctry_def resolve_region_def bind_out_def)

theorem neither_raster_nor_region_exits_witness:
  "cellneigh ceildiv_exact None None 10 1 =
     ([Line ''raster or region must be specified''], Inl (SystemExit 1))
   \<and> cellneigh_ctry ceildiv_exact None None (\<lambda>c b. [[1]]) 10 1 =
     ([Line ''raster or region must be specified''], Inl (SystemExit 1))"
  using neither_raster_nor_region_exits [where ceildiv = ceildiv_exact and csize = 10
      and rank = 1 and rasterize = "\<lambda>c b. [[1]]"]
  by simp




text \<open>
  C3 as stated fails: a region of 100 km by 100 km with \<open>csize = -10\<close> is not
  rejected; the grid dimensions \<open>(-10, -10)\<close> are produced. (The product \<open>-10000\<close>, the
  differences \<open>100000\<close> and the quotients \<open>-10\<close> are exact in floats.)
\<close>

theorem negative_csize_counterexample:
  "grid_dims ceildiv_exact (0, 100000, 0, 100000) (- 10) =
     ([Compute_number (- 10), Cells 100 (- 10) (- 10)], Inr (- 10, - 10))"
  by (simp add: grid_dims_def ceildiv_exact_def)

lemma cellneigh_graph_no_rows: "nrow \<le> 0 \<Longrightarrow> cellneigh_graph ncol nrow rank = ([], [])"
  by (simp add: cellneigh_graph_def)

text \<open>
  C3, amended. A cell size of zero is rejected: the call stops with the division error
  before any grid dimension is produced. A negative cell size is not rejected, since
  the sign of the cell size is never tested: for every cell size other than zero,
  negative ones included, the two integers that the expressions of lines 53-54
  evaluate to are returned as the grid dimensions; and when the number of rows is
  not positive, as with \<open>csize = -10\<close> above, \<^verbatim>\<open>cellneigh\<close> returns two empty sequences.
\<close>

theorem grid_dims_unchecked_csize:
  "(csize = 0 \<longrightarrow> snd (grid_dims ceildiv b csize) = Inl ZeroDivisionError)
   \<and> (csize \<noteq> 0 \<and> ceildiv Xmin Xmax csize = Inr ncol \<and> ceildiv Ymin Ymax csize = Inr nrow \<longrightarrow>
        snd (grid_dims ceildiv (Xmin, Xmax, Ymin, Ymax) csize) = Inr (ncol, nrow)
        \<and> (nrow \<le> 0 \<longrightarrow>
             snd (cellneigh ceildiv None (Some [Xmin, Xmax, Ymin, Ymax]) csize rank) =
               Inr ([], [])))"
proof (intro conjI impI)
  assume "csize = 0"
  then show "snd (grid_dims ceildiv b csize) = Inl ZeroDivisionError"
    by (cases b) (simp add: grid_dims_def)
next
  assume "csize \<noteq> 0 \<and> ceildiv Xmin Xmax csize = Inr ncol \<and> ceildiv Ymin Ymax csize = Inr nrow"
  then show "snd (grid_dims ceildiv (Xmin, Xmax, Ymin, Ymax) csize) = Inr (ncol, nrow)"
    by (simp add: grid_dims_def Let_def)
next
  assume h: "csize \<noteq> 0 \<and> ceildiv Xmin Xmax csize = Inr ncol \<and> ceildiv Ymin Ymax csize = Inr nrow"
    and r: "nrow \<le> 0"
  show "snd (cellneigh ceildiv None (Some [Xmin, Xmax, Ymin, Ymax]) csize rank) = Inr ([], [])"
    using h cellneigh_graph_no_rows [OF r]
    by (simp add: cellneigh_def resolve_region_def grid_dims_def bind_out_def Let_def)
qed

theorem grid_dims_unchecked_csize_witness:
  "snd (grid_dims ceildiv_exact (0, 100000, 0, 100000) 0) = Inl ZeroDivisionError
   \<and> ceildiv_exact 0 100000 (- 10) = Inr (- 10)
   \<and> snd (grid_dims ceildiv_exact (0, 100000, 0, 100000) (- 10)) = Inr (- 10, - 10)
   \<and> snd (cellneigh ceildiv_exact None (Some [0, 100000, 0, 100000]) (- 10) 1) = Inr ([], [])"
proof -
  have d: "ceildiv_exact 0 100000 (- 10) = Inr (- 10)"
    by (simp add: ceildiv_exact_def)
  show ?thesis
    using grid_dims_unchecked_csize [where csize = 0 and ceildiv = ceildiv_exact
          and b = "(0, 100000, 0, 100000)"]
      grid_dims_unchecked_csize [where csize = "- 10" and ceildiv = ceildiv_exact
          and Xmin = 0 and Xmax = 100000 and Ymin = 0 and Ymax = 100000
          and ncol = "- 10" and nrow = "- 10" and rank = 1] d
    by simp
qed

subsection \<open>Counts and the length of the adjacency list\<close>

lemma loop_cx_eq: "loop_cx ncol i j cy Jprim adj = adj @ neigh_row ncol i j cy Jprim"
  by (induction Jprim arbitrary: adj) (simp_all add: neigh_row_def)

lemma loop_cy_eq: "loop_cy ncol i j Iprim Jprim adj = adj @ neigh ncol i j Iprim Jprim"
  by (induction Iprim arbitrary: adj) (simp_all add: neigh_def loop_cx_eq)

lemma loop_j_eq:
  "loop_j ncol nrow ar i js (nneigh, adj) =
     (nneigh @ map (\<lambda>j. cell_count ncol nrow ar (i, j)) js,
      adj @ concat (map (\<lambda>j. cell_neigh ncol nrow ar (i, j)) js))"
  by (induction js arbitrary: nneigh adj)
     (simp_all add: loop_cy_eq cell_count_def cell_neigh_def Let_def)

lemma loop_i_eq:
  "loop_i ncol nrow ar is (nneigh, adj) =
     (nneigh @ concat (map (\<lambda>i. map (\<lambda>j. cell_count ncol nrow ar (i, j)) [0..ncol - 1]) is),
      adj @ concat (map (\<lambda>i. concat (map (\<lambda>j. cell_neigh ncol nrow ar (i, j)) [0..ncol - 1])) is))"
  by (induction "is" arbitrary: nneigh adj) (simp_all add: loop_j_eq)

lemma concat_cells:
  "concat (map (\<lambda>i. concat (map (\<lambda>j. f (i, j)) js)) is) =
     concat (map f (concat (map (\<lambda>i. map (\<lambda>j. (i, j)) js) is)))"
  by (induction "is") (simp_all add: comp_def)

lemma map_cells:
  "concat (map (\<lambda>i. map (\<lambda>j. f (i, j)) js) is) =
     map f (concat (map (\<lambda>i. map (\<lambda>j. (i, j)) js) is))"
  by (induction "is") (simp_all add: comp_def)

lemma cellneigh_graph_eq:
  "cellneigh_graph ncol nrow rank =
     (map (cell_count ncol nrow (around rank)) (cells ncol nrow),
      concat (map (cell_neigh ncol nrow (around rank)) (cells ncol nrow)))"
  by (simp add: cellneigh_graph_def loop_i_eq cells_def concat_cells map_cells)

lemma distinct_window: "distinct (window (around rank) i n)"
  by (simp add: window_def around_def distinct_map)

lemma set_window:
  "set (window (around rank) i n) = {v. 0 \<le> v \<and> v < n \<and> i - rank \<le> v \<and> v \<le> i + rank}"
proof -
  have "(\<lambda>a. i + a) ` {- rank..rank} = {i - rank..i + rank}"
    by (auto simp: image_iff intro: bexI [where x = "v - i" for v])
  then show ?thesis
    by (auto simp: window_def around_def)
qed

lemma filter_neq_notin: "x \<notin> set xs \<Longrightarrow> filter (\<lambda>y. y \<noteq> x) xs = xs"
  by (induction xs) auto

lemma length_neigh_row:
  "distinct Jprim \<Longrightarrow> j \<in> set Jprim \<Longrightarrow>
   length (neigh_row ncol i j cy Jprim) + (if cy = i then 1 else 0) = length Jprim"
  by (induction Jprim) (auto simp: neigh_row_def filter_neq_notin)

lemma length_neigh:
  "distinct Iprim \<Longrightarrow> distinct Jprim \<Longrightarrow> j \<in> set Jprim \<Longrightarrow>
   length (neigh ncol i j Iprim Jprim) + (if i \<in> set Iprim then 1 else 0) =
     length Iprim * length Jprim"
proof (induction Iprim)
  case Nil
  then show ?case by (simp add: neigh_def)
next
  case (Cons cy Iprim)
  have row: "length (neigh_row ncol i j cy Jprim) + (if cy = i then 1 else 0) = length Jprim"
    using Cons.prems by (simp add: length_neigh_row)
  have rest: "length (neigh ncol i j Iprim Jprim) + (if i \<in> set Iprim then 1 else 0) =
     length Iprim * length Jprim"
    using Cons by simp
  have split: "length (neigh ncol i j (cy # Iprim) Jprim) =
      length (neigh_row ncol i j cy Jprim) + length (neigh ncol i j Iprim Jprim)"
    by (simp add: neigh_def)
  show ?case
  proof (cases "cy = i")
    case True
    then have "i \<notin> set Iprim" using Cons.prems(1) by simp
    with True row rest show ?thesis unfolding split by simp
  next
    case False
    with row rest show ?thesis unfolding split by simp
  qed
qed

lemma cell_count_eq_length:
  assumes "0 \<le> rank" "0 \<le> i" "i < nrow" "0 \<le> j" "j < ncol"
  shows "cell_count ncol nrow (around rank) (i, j) =
           int (length (cell_neigh ncol nrow (around rank) (i, j)))"
proof -
  let ?I = "window (around rank) i nrow" and ?J = "window (around rank) j ncol"
  have i: "i \<in> set ?I" and j: "j \<in> set ?J"
    using assms by (simp_all add: set_window)
  have "length (neigh ncol i j ?I ?J) + 1 = length ?I * length ?J"
    using length_neigh [of ?I ?J j ncol i] i j by (simp add: distinct_window)
  then have "int (length (neigh ncol i j ?I ?J)) = int (length ?I) * int (length ?J) - 1"
    by (metis add_diff_cancel_right' of_nat_1 of_nat_add of_nat_mult)
  then show ?thesis
    by (simp add: cell_count_def cell_neigh_def)
qed

lemma set_cells: "set (cells ncol nrow) = {(i, j). 0 \<le> i \<and> i < nrow \<and> 0 \<le> j \<and> j < ncol}"
  by (auto simp: cells_def)

lemma sum_list_length_concat: "sum_list (map (\<lambda>x. int (length (f x))) xs) = int (length (concat (map f xs)))"
  by (induction xs) simp_all

lemma cellneigh_graph_sum:
  assumes "0 \<le> rank"
  shows "sum_list (fst (cellneigh_graph ncol nrow rank)) =
           int (length (snd (cellneigh_graph ncol nrow rank)))"
proof -
  have "map (cell_count ncol nrow (around rank)) (cells ncol nrow) =
        map (\<lambda>c. int (length (cell_neigh ncol nrow (around rank) c))) (cells ncol nrow)"
    using assms by (intro map_cong [OF refl]) (auto simp: set_cells cell_count_eq_length)
  then show ?thesis
    unfolding cellneigh_graph_eq by (simp only: fst_conv snd_conv sum_list_length_concat)
qed

lemma ctry_loop_cx_count:
  "ctry_loop_cx msk ncol i j cy Jprim (adj, n) = Inr (adj', n') \<Longrightarrow>
   int (length adj') - n' = int (length adj) - n"
proof (induction Jprim arbitrary: adj n)
  case Nil
  then show ?case by simp
next
  case (Cons cx Jprim)
  then show ?case
    by (fastforce split: if_splits sum.splits)
qed

lemma ctry_loop_cy_count:
  "ctry_loop_cy msk ncol i j Iprim Jprim (adj, n) = Inr (adj', n') \<Longrightarrow>
   int (length adj') - n' = int (length adj) - n"
proof (induction Iprim arbitrary: adj n)
  case Nil
  then show ?case by simp
next
  case (Cons cy Iprim)
  from Cons.prems obtain adj1 n1 where
    cx: "ctry_loop_cx msk ncol i j cy Jprim (adj, n) = Inr (adj1, n1)" and
    cy: "ctry_loop_cy msk ncol i j Iprim Jprim (adj1, n1) = Inr (adj', n')"
    by (auto split: sum.splits)
  show ?case
    using ctry_loop_cx_count [OF cx] Cons.IH [OF cy] by simp
qed

lemma ctry_loop_j_count:
  "ctry_loop_j msk ncol nrow ar i js (nneigh, adj) = Inr (nneigh', adj') \<Longrightarrow>
   sum_list nneigh' - int (length adj') = sum_list nneigh - int (length adj)"
proof (induction js arbitrary: nneigh adj)
  case Nil
  then show ?case by simp
next
  case (Cons j js)
  from Cons.prems obtain v where v: "mask_at msk i j = Inr v"
    by (auto split: sum.splits)
  show ?case
  proof (cases "v = 1")
    case True
    with Cons.prems v obtain adj1 n1 where
      cy: "ctry_loop_cy msk ncol i j (window ar i nrow) (window ar j ncol) (adj, 0) = Inr (adj1, n1)" and
      rest: "ctry_loop_j msk ncol nrow ar i js (nneigh @ [n1], adj1) = Inr (nneigh', adj')"
      by (auto simp: Let_def split: sum.splits)
    show ?thesis
      using ctry_loop_cy_count [OF cy] Cons.IH [OF rest] by simp
  next
    case False
    with Cons.prems v have "ctry_loop_j msk ncol nrow ar i js (nneigh, adj) = Inr (nneigh', adj')"
      by simp
    then show ?thesis by (rule Cons.IH)
  qed
qed

lemma ctry_loop_i_count:
  "ctry_loop_i msk ncol nrow ar is (nneigh, adj) = Inr (nneigh', adj') \<Longrightarrow>
   sum_list nneigh' - int (length adj') = sum_list nneigh - int (length adj)"
proof (induction "is" arbitrary: nneigh adj)
  case Nil
  then show ?case by simp
next
  case (Cons i "is")
  from Cons.prems obtain nn1 adj1 where
    j: "ctry_loop_j msk ncol nrow ar i [0..ncol - 1] (nneigh, adj) = Inr (nn1, adj1)" and
    rest: "ctry_loop_i msk ncol nrow ar is (nn1, adj1) = Inr (nneigh', adj')"
    by (auto split: sum.splits)
  show ?case
    using ctry_loop_j_count [OF j] Cons.IH [OF rest] by simp
qed

lemma ctry_scan_sum:
  "ctry_scan ncol nrow rank msk = Inr (nneigh, adj) \<Longrightarrow> sum_list nneigh = int (length adj)"
  using ctry_loop_i_count [of msk ncol nrow "around rank" "[0..nrow - 1]" "[]" "[]" nneigh adj]
  by (simp add: ctry_scan_def)

lemma comprehension_length:
  "comprehension f xs = Inr ys \<Longrightarrow> length ys = length xs"
  by (induction xs arbitrary: ys) (auto split: sum.splits)

lemma cellneigh_ctry_graph_Inr:
  "cellneigh_ctry_graph ncol nrow rank msk = Inr (nneigh, adj_rank, cell_in) \<Longrightarrow>
   \<exists>adj. ctry_scan ncol nrow rank msk = Inr (nneigh, adj)
     \<and> comprehension (ndarray_index (included_cells ncol msk)) adj = Inr adj_rank
     \<and> cell_in = included_cells ncol msk"
  by (auto simp: cellneigh_ctry_graph_def Let_def split: sum.splits)

text \<open>
  C4. The neighbour counts sum to the length of the flat adjacency list. For
  \<^verbatim>\<open>cellneigh\<close> this holds for every grid and every rank that is not negative (with a
  negative rank each count is \<open>-1\<close> and the list is empty). For \<^verbatim>\<open>cellneigh_ctry\<close> it
  holds for the counts and the list the scan builds (lines 140-159), it is kept by
  the translation of line 160 whatever the lookup, and so it holds for every result
  the function returns.
\<close>

theorem counts_sum_to_adjacency_length:
  "(0 \<le> rank \<longrightarrow>
      sum_list (fst (cellneigh_graph ncol nrow rank)) =
        int (length (snd (cellneigh_graph ncol nrow rank))))
   \<and> (\<forall>nneigh adj. ctry_scan ncol nrow rank msk = Inr (nneigh, adj) \<longrightarrow>
        sum_list nneigh = int (length adj))
   \<and> (\<forall>nneigh adj. ctry_scan ncol nrow rank msk = Inr (nneigh, adj) \<longrightarrow>
        (\<forall>lookup adj_rank. comprehension lookup adj = Inr adj_rank \<longrightarrow>
           sum_list nneigh = int (length adj_rank)))
   \<and> (\<forall>nneigh adj_rank cell_in.
        cellneigh_ctry_graph ncol nrow rank msk = Inr (nneigh, adj_rank, cell_in) \<longrightarrow>
        sum_list nneigh = int (length adj_rank))"
proof (intro conjI allI impI)
  assume "0 \<le> rank"
  then show "sum_list (fst (cellneigh_graph ncol nrow rank)) =
        int (length (snd (cellneigh_graph ncol nrow rank)))"
    by (rule cellneigh_graph_sum)
next
  fix nneigh adj
  assume "ctry_scan ncol nrow rank msk = Inr (nneigh, adj)"
  then show "sum_list nneigh = int (length adj)"
    by (rule ctry_scan_sum)
next
  fix nneigh adj adj_rank and lookup :: "int \<Rightarrow> error + 'a"
  assume "ctry_scan ncol nrow rank msk = Inr (nneigh, adj)"
    and "comprehension lookup adj = Inr adj_rank"
  then show "sum_list nneigh = int (length adj_rank)"
    by (simp add: ctry_scan_sum comprehension_length)
next
  fix nneigh adj_rank cell_in
  assume "cellneigh_ctry_graph ncol nrow rank msk = Inr (nneigh, adj_rank, cell_in)"
  then obtain adj where "ctry_scan ncol nrow rank msk = Inr (nneigh, adj)"
    and "comprehension (ndarray_index (included_cells ncol msk)) adj = Inr adj_rank"
    using cellneigh_ctry_graph_Inr by blast
  then show "sum_list nneigh = int (length adj_rank)"
    by (simp add: ctry_scan_sum comprehension_length)
qed

theorem counts_sum_to_adjacency_length_witness:
  "cellneigh_graph 2 2 1 = ([3, 3, 3, 3], [1, 2, 3, 0, 2, 3, 0, 1, 3, 0, 1, 2])
   \<and> sum_list (fst (cellneigh_graph 2 2 1)) = int (length (snd (cellneigh_graph 2 2 1)))
   \<and> ctry_scan 2 2 1 [[1, 1], [1, 1]] = Inr ([3, 3, 3, 3], [1, 2, 3, 0, 2, 3, 0, 1, 3, 0, 1, 2])
   \<and> comprehension (list_index [0, 1, 2, 3]) [1, 2, 3, 0, 2, 3, 0, 1, 3, 0, 1, 2] =
        Inr [1, 2, 3, 0, 2, 3, 0, 1, 3, 0, 1, 2]
   \<and> sum_list [3, 3, 3, 3] = int (length [1, 2, 3, 0, 2, 3, 0, 1, 3, 0, 1, 2 :: int])
   \<and> cellneigh_ctry_graph 2 2 1 [[1, 0], [0, 0]] = Inr ([0], [], [0])
   \<and> sum_list [0] = int (length ([] :: int list))"
proof -
  have g: "cellneigh_graph 2 2 1 = ([3, 3, 3, 3], [1, 2, 3, 0, 2, 3, 0, 1, 3, 0, 1, 2])"
    by code_simp
  have s: "ctry_scan 2 2 1 [[1, 1], [1, 1]] =
      Inr ([3, 3, 3, 3], [1, 2, 3, 0, 2, 3, 0, 1, 3, 0, 1, 2])"
    by code_simp
  have t: "comprehension (list_index [0, 1, 2, 3]) [1, 2, 3, 0, 2, 3, 0, 1, 3, 0, 1, 2] =
        Inr [1, 2, 3, 0, 2, 3, 0, 1, 3, 0, 1, 2]"
    by code_simp
  have c: "cellneigh_ctry_graph 2 2 1 [[1, 0], [0, 0]] = Inr ([0], [], [0])"
    by code_simp
  show ?thesis
    using counts_sum_to_adjacency_length [of 1 2 2 "[[1, 1], [1, 1]]"]
      counts_sum_to_adjacency_length [of 1 2 2 "[[1, 0], [0, 0]]"] g s t c
    by simp
qed

subsection \<open>The mask read of the candidate test, and the translation\<close>

text \<open>
  C2. The claim is that a candidate at row \<open>cy\<close>, column \<open>cx\<close> is retained exactly when
  the mask is 1 at row \<open>cy\<close>, column \<open>cx\<close>. The code reads \<^verbatim>\<open>mask[cx, cy]\<close>. On the
  2 x 2 mask with first row 1, 1 and second row 0, 0, for the cell at row 0, column 0:
  the candidate at row 1, column 0 (id 2) is retained though the mask is 0 there, and
  the candidate at row 0, column 1 (id 1) is dropped though the mask is 1 there. The
  scan ends with the counts 1, 2 and the adjacency 2, 0, 2 where the row-major test
  gives the counts 1, 1 and the adjacency 1, 0. On the grid of one row and two
  columns with the mask 1, 1 the read is outside the array and raises.
\<close>

theorem candidate_mask_read_transposed:
  "mask_at [[1, 1], [0, 0]] 1 0 = Inr 0
   \<and> ctry_loop_cx [[1, 1], [0, 0]] 2 0 0 1 [0] ([], 0) = Inr ([2], 1)
   \<and> mask_at [[1, 1], [0, 0]] 0 1 = Inr 1
   \<and> ctry_loop_cx [[1, 1], [0, 0]] 2 0 0 0 [1] ([], 0) = Inr ([], 0)
   \<and> ctry_scan 2 2 1 [[1, 1], [0, 0]] = Inr ([1, 2], [2, 0, 2])
   \<and> ctry_scan 2 1 1 [[1, 1]] = Inl IndexError"
  by code_simp

text \<open>
  C1. The claim is that the masked builder returns, for every mask, adjacency values
  that are positions in the list of included cells. On the 2 x 2 mask above the
  included cells are 0 and 1 and the scan gives the adjacency 2, 0, 2: id 2 is not an
  included cell. The translation \<^verbatim>\<open>cell_in.index(i)\<close> then raises, and nothing is
  returned: \<^verbatim>\<open>AttributeError\<close> as the code is written (\<^verbatim>\<open>cell_in\<close> is an array), and
  \<^verbatim>\<open>ValueError\<close> even where \<^verbatim>\<open>cell_in\<close> is a list. As the code is written the
  translation raises on every adjacency that is not empty, for instance on the mask
  of four ones.
\<close>

theorem translation_raises:
  "included_cells 2 [[1, 1], [0, 0]] = [0, 1]
   \<and> ctry_scan 2 2 1 [[1, 1], [0, 0]] = Inr ([1, 2], [2, 0, 2])
   \<and> cellneigh_ctry_graph 2 2 1 [[1, 1], [0, 0]] = Inl AttributeError
   \<and> comprehension (list_index [0, 1]) [2, 0, 2] = Inl ValueError
   \<and> cellneigh_ctry_graph 2 2 1 [[1, 1], [1, 1]] = Inl AttributeError"
  by code_simp

subsection \<open>Counts and segments of \<^verbatim>\<open>cellneigh\<close> by cell\<close>

lemma nth_concat_uniform:
  "(\<forall>xs \<in> set xss. length xs = n) \<Longrightarrow> k < length xss \<Longrightarrow> l < n \<Longrightarrow>
   concat xss ! (k * n + l) = xss ! k ! l"
proof (induction xss arbitrary: k)
  case Nil
  then show ?case by simp
next
  case (Cons xs xss)
  show ?case
  proof (cases k)
    case 0
    with Cons.prems show ?thesis by (simp add: nth_append)
  next
    case (Suc k')
    with Cons.prems have "concat xss ! (k' * n + l) = xss ! k' ! l"
      by (intro Cons.IH) simp_all
    with Suc Cons.prems show ?thesis by (simp add: nth_append)
  qed
qed

lemma length_cells: "length (cells ncol nrow) = nat nrow * nat ncol"
  by (simp add: cells_def length_concat comp_def sum_list_triv)

lemma nth_cells:
  assumes "0 \<le> i" "i < nrow" "0 \<le> j" "j < ncol"
  shows "cells ncol nrow ! nat (i * ncol + j) = (i, j)"
proof -
  let ?xss = "map (\<lambda>i. map (\<lambda>j. (i, j)) [0..ncol - 1]) [0..nrow - 1]"
  have idx: "nat (i * ncol + j) = nat i * nat ncol + nat j"
    using assms by (simp add: nat_add_distrib nat_mult_distrib)
  have "concat ?xss ! (nat i * nat ncol + nat j) = ?xss ! nat i ! nat j"
    using assms by (intro nth_concat_uniform) auto
  also have "\<dots> = (i, j)"
    using assms by simp
  finally show ?thesis
    by (simp add: cells_def idx)
qed

lemma cell_index_less:
  assumes "0 \<le> i" "i < nrow" "0 \<le> j" "j < ncol"
  shows "nat (i * ncol + j) < nat nrow * nat ncol"
proof -
  have "i * ncol + j < (i + 1) * ncol"
    using assms by (simp add: algebra_simps)
  also have "\<dots> \<le> nrow * ncol"
    using assms by (intro mult_right_mono) simp_all
  finally have "i * ncol + j < nrow * ncol" .
  moreover have "nat nrow * nat ncol = nat (nrow * ncol)"
    using assms by (simp add: nat_mult_distrib)
  ultimately show ?thesis
    using assms by simp
qed

lemma segment_concat:
  assumes "k < length cs"
  shows "segment (map (\<lambda>c. int (length (f c))) cs) (concat (map f cs)) k = f (cs ! k)"
proof -
  have start: "sum_list (take k (map (\<lambda>c. int (length (f c))) cs)) =
      int (length (concat (map f (take k cs))))"
    by (simp add: take_map sum_list_length_concat)
  have "concat (map f cs) = concat (map f (take k cs)) @ concat (map f (drop k cs))"
    by (metis append_take_drop_id concat_append map_append)
  then have "drop (length (concat (map f (take k cs)))) (concat (map f cs)) =
      concat (map f (drop k cs))"
    by simp
  also have "\<dots> = f (cs ! k) @ concat (map f (drop (Suc k) cs))"
    using assms by (simp add: Cons_nth_drop_Suc [symmetric])
  finally show ?thesis
    using assms by (simp add: segment_def start)
qed

lemma around_1: "around 1 = [- 1, 0, 1]"
  by (simp add: around_def upto.simps)

lemma length_window_1:
  assumes "0 \<le> i" "i < n" "2 \<le> n"
  shows "length (window (around 1) i n) = (if i = 0 \<or> i = n - 1 then 2 else 3)"
  using assms by (auto simp: window_def around_1)

lemma nneigh_nth:
  assumes "0 \<le> i" "i < nrow" "0 \<le> j" "j < ncol"
  shows "fst (cellneigh_graph ncol nrow rank) ! nat (i * ncol + j) =
           cell_count ncol nrow (around rank) (i, j)"
  using assms cell_index_less [OF assms]
  by (simp add: cellneigh_graph_eq length_cells nth_cells)

text \<open>
  C5. At rank 1 on a grid with at least two rows and two columns, the count of the
  cell at row \<open>i\<close>, column \<open>j\<close> (linear id \<open>i * ncol + j\<close>) is 8 when the cell touches
  no edge of the grid, 3 when it is a corner, and 5 when it lies on one edge only.
\<close>

theorem rank_1_counts:
  assumes "2 \<le> ncol" "2 \<le> nrow" "0 \<le> i" "i < nrow" "0 \<le> j" "j < ncol"
  shows "nat (i * ncol + j) < length (fst (cellneigh_graph ncol nrow 1))
    \<and> (0 < i \<and> i < nrow - 1 \<and> 0 < j \<and> j < ncol - 1 \<longrightarrow>
         fst (cellneigh_graph ncol nrow 1) ! nat (i * ncol + j) = 8)
    \<and> ((i = 0 \<or> i = nrow - 1) \<and> (j = 0 \<or> j = ncol - 1) \<longrightarrow>
         fst (cellneigh_graph ncol nrow 1) ! nat (i * ncol + j) = 3)
    \<and> ((i = 0 \<or> i = nrow - 1) \<and> 0 < j \<and> j < ncol - 1 \<longrightarrow>
         fst (cellneigh_graph ncol nrow 1) ! nat (i * ncol + j) = 5)
    \<and> (0 < i \<and> i < nrow - 1 \<and> (j = 0 \<or> j = ncol - 1) \<longrightarrow>
         fst (cellneigh_graph ncol nrow 1) ! nat (i * ncol + j) = 5)"
proof -
  have len: "nat (i * ncol + j) < length (fst (cellneigh_graph ncol nrow 1))"
    using cell_index_less [of i nrow j ncol] assms
    by (simp add: cellneigh_graph_eq length_cells)
  have count: "fst (cellneigh_graph ncol nrow 1) ! nat (i * ncol + j) =
      int (if i = 0 \<or> i = nrow - 1 then 2 else 3) * int (if j = 0 \<or> j = ncol - 1 then 2 else 3) - 1"
    using assms by (simp add: nneigh_nth cell_count_def length_window_1)
  show ?thesis
    using len assms unfolding count by auto
qed

theorem rank_1_counts_witness:
  "fst (cellneigh_graph 3 3 1) ! nat (1 * 3 + 1) = 8
   \<and> fst (cellneigh_graph 3 3 1) ! nat (0 * 3 + 0) = 3
   \<and> fst (cellneigh_graph 3 3 1) ! nat (2 * 3 + 2) = 3
   \<and> fst (cellneigh_graph 3 3 1) ! nat (0 * 3 + 1) = 5
   \<and> fst (cellneigh_graph 3 3 1) ! nat (1 * 3 + 0) = 5"
  using rank_1_counts [of 3 3 1 1] rank_1_counts [of 3 3 0 0] rank_1_counts [of 3 3 2 2]
    rank_1_counts [of 3 3 0 1] rank_1_counts [of 3 3 1 0]
  by simp

lemma cell_id_inj:
  fixes ncol :: int
  assumes "cy * ncol + cx = i * ncol + j" "0 \<le> cx" "cx < ncol" "0 \<le> j" "j < ncol"
  shows "cy = i \<and> cx = j"
proof -
  have "cy = (cy * ncol + cx) div ncol"
    using assms(2,3) by simp
  also have "\<dots> = (i * ncol + j) div ncol"
    by (simp only: assms(1))
  also have "\<dots> = i"
    using assms(4,5) by simp
  finally have "cy = i" .
  with assms(1) show ?thesis by simp
qed

lemma cells_nth_decode:
  assumes "a < nat nrow * nat ncol"
  shows "cells ncol nrow ! a = (int a div ncol, int a mod ncol)"
    and "0 \<le> int a div ncol" "int a div ncol < nrow"
    and "0 \<le> int a mod ncol" "int a mod ncol < ncol"
proof -
  have pos: "0 < ncol" "0 < nrow"
    using assms by (metis zero_less_nat_eq gr_implies_not_zero gr_zeroI mult_not_zero)+
  have lt: "int a < nrow * ncol"
    using assms pos by (metis mult_less_cancel_right nat_mult_distrib
        verit_comp_simplify1(1,3) zless_nat_eq_int_zless)
  have split: "int a div ncol * ncol + int a mod ncol = int a"
    by simp
  have m: "0 \<le> int a mod ncol" "int a mod ncol < ncol"
    using pos by simp_all
  show d: "int a div ncol < nrow"
  proof (rule ccontr)
    assume "\<not> int a div ncol < nrow"
    then have "nrow * ncol \<le> int a div ncol * ncol"
      using pos by (intro mult_right_mono) simp_all
    with split m lt show False by linarith
  qed
  show d0: "0 \<le> int a div ncol"
    using pos by (simp add: pos_imp_zdiv_nonneg_iff)
  show "0 \<le> int a mod ncol" "int a mod ncol < ncol"
    using m by simp_all
  have "cells ncol nrow ! nat (int a div ncol * ncol + int a mod ncol) =
      (int a div ncol, int a mod ncol)"
    using d d0 m by (intro nth_cells)
  then show "cells ncol nrow ! a = (int a div ncol, int a mod ncol)"
    by simp
qed

lemma set_neigh:
  "set (neigh ncol i j Iprim Jprim) =
     {cy * ncol + cx | cy cx. cy \<in> set Iprim \<and> cx \<in> set Jprim \<and> \<not> (cy = i \<and> cx = j)}"
  by (auto simp: neigh_def neigh_row_def)

lemma set_cell_neigh:
  "set (cell_neigh ncol nrow (around rank) (i, j)) =
     {cy * ncol + cx | cy cx.
        0 \<le> cy \<and> cy < nrow \<and> i - rank \<le> cy \<and> cy \<le> i + rank \<and>
        0 \<le> cx \<and> cx < ncol \<and> j - rank \<le> cx \<and> cx \<le> j + rank \<and> \<not> (cy = i \<and> cx = j)}"
  by (simp add: cell_neigh_def set_neigh set_window)

lemma adj_empty_negative_rank:
  "rank < 0 \<Longrightarrow> snd (cellneigh_graph ncol nrow rank) = []"
  by (simp add: cellneigh_graph_eq cell_neigh_def neigh_def window_def around_def)

lemma segment_Nil: "segment nneigh [] k = []"
  by (simp add: segment_def)

lemma length_nneigh: "length (fst (cellneigh_graph ncol nrow rank)) = nat nrow * nat ncol"
  by (simp add: cellneigh_graph_eq length_cells)

lemma segment_graph:
  assumes "0 \<le> rank" "a < nat nrow * nat ncol"
  shows "segment (fst (cellneigh_graph ncol nrow rank)) (snd (cellneigh_graph ncol nrow rank)) a =
           cell_neigh ncol nrow (around rank) (int a div ncol, int a mod ncol)"
proof -
  have "map (cell_count ncol nrow (around rank)) (cells ncol nrow) =
        map (\<lambda>c. int (length (cell_neigh ncol nrow (around rank) c))) (cells ncol nrow)"
    using assms(1) by (intro map_cong [OF refl]) (auto simp: set_cells cell_count_eq_length)
  then have "segment (fst (cellneigh_graph ncol nrow rank)) (snd (cellneigh_graph ncol nrow rank)) a =
     cell_neigh ncol nrow (around rank) (cells ncol nrow ! a)"
    unfolding cellneigh_graph_eq using assms(2)
    by (simp only: fst_conv snd_conv segment_concat length_cells)
  then show ?thesis
    using cells_nth_decode(1) [OF assms(2)] by simp
qed

lemma div_mod_cell:
  fixes ncol :: int
  assumes "0 \<le> cx" "cx < ncol"
  shows "(cy * ncol + cx) div ncol = cy" "(cy * ncol + cx) mod ncol = cx"
  using assms by simp_all

text \<open>
  C6. The adjacency of \<^verbatim>\<open>cellneigh\<close> is symmetric, for every grid and rank: an entry
  \<open>v\<close> of the segment of cell \<open>a\<close> is the id of a cell of the grid, and \<open>a\<close> is an
  entry of the segment of that cell.
\<close>

theorem adjacency_symmetric:
  assumes "a < length (fst (cellneigh_graph ncol nrow rank))"
    and "v \<in> set (segment (fst (cellneigh_graph ncol nrow rank))
                     (snd (cellneigh_graph ncol nrow rank)) a)"
  shows "0 \<le> v \<and> nat v < length (fst (cellneigh_graph ncol nrow rank))
    \<and> int a \<in> set (segment (fst (cellneigh_graph ncol nrow rank))
                       (snd (cellneigh_graph ncol nrow rank)) (nat v))"
proof (cases "rank < 0")
  case True
  with assms(2) show ?thesis
    by (simp add: adj_empty_negative_rank segment_Nil)
next
  case False
  then have rank: "0 \<le> rank" by simp
  let ?i = "int a div ncol" and ?j = "int a mod ncol"
  have a: "a < nat nrow * nat ncol"
    using assms(1) by (simp add: length_nneigh)
  note ij = cells_nth_decode(2-5) [OF a]
  have "v \<in> set (cell_neigh ncol nrow (around rank) (?i, ?j))"
    using assms(2) by (simp add: segment_graph [OF rank a])
  then obtain cy cx where v: "v = cy * ncol + cx"
    and cy: "0 \<le> cy" "cy < nrow" "?i - rank \<le> cy" "cy \<le> ?i + rank"
    and cx: "0 \<le> cx" "cx < ncol" "?j - rank \<le> cx" "cx \<le> ?j + rank"
    and ne: "\<not> (cy = ?i \<and> cx = ?j)"
    unfolding set_cell_neigh by blast
  have v0: "0 \<le> v"
    using v cy cx by simp
  have vlt: "nat v < nat nrow * nat ncol"
    unfolding v using cy(1,2) cx(1,2) by (rule cell_index_less)
  have dec: "int (nat v) div ncol = cy" "int (nat v) mod ncol = cx"
    using v0 div_mod_cell [OF cx(1,2), of cy] by (simp_all add: v)
  have seg: "segment (fst (cellneigh_graph ncol nrow rank))
        (snd (cellneigh_graph ncol nrow rank)) (nat v) =
      cell_neigh ncol nrow (around rank) (cy, cx)"
    using segment_graph [OF rank vlt] by (simp only: dec)
  have "int a = ?i * ncol + ?j"
    by simp
  moreover have "0 \<le> ?i \<and> ?i < nrow \<and> cy - rank \<le> ?i \<and> ?i \<le> cy + rank \<and>
        0 \<le> ?j \<and> ?j < ncol \<and> cx - rank \<le> ?j \<and> ?j \<le> cx + rank \<and> \<not> (?i = cy \<and> ?j = cx)"
    using ij cy cx ne by auto
  ultimately have "int a \<in> set (cell_neigh ncol nrow (around rank) (cy, cx))"
    unfolding set_cell_neigh by blast
  with v0 vlt seg show ?thesis
    by (simp add: length_nneigh)
qed

theorem adjacency_symmetric_witness:
  "segment (fst (cellneigh_graph 3 3 1)) (snd (cellneigh_graph 3 3 1)) 1 = [0, 2, 3, 4, 5]
   \<and> segment (fst (cellneigh_graph 3 3 1)) (snd (cellneigh_graph 3 3 1)) 5 = [1, 2, 4, 7, 8]
   \<and> int 1 \<in> set (segment (fst (cellneigh_graph 3 3 1)) (snd (cellneigh_graph 3 3 1)) (nat 5))"
proof -
  have g: "cellneigh_graph 3 3 1 = ([3, 5, 3, 5, 8, 5, 3, 5, 3],
    [1, 3, 4, 0, 2, 3, 4, 5, 1, 4, 5, 0, 1, 4, 6, 7, 0, 1, 2, 3, 5, 6, 7, 8,
     1, 2, 4, 7, 8, 3, 4, 7, 3, 4, 5, 6, 8, 4, 5, 7])"
    by code_simp
  have s1: "segment (fst (cellneigh_graph 3 3 1)) (snd (cellneigh_graph 3 3 1)) 1 = [0, 2, 3, 4, 5]"
    unfolding g by (simp add: segment_def)
  have s5: "segment (fst (cellneigh_graph 3 3 1)) (snd (cellneigh_graph 3 3 1)) 5 = [1, 2, 4, 7, 8]"
    unfolding g by (simp add: segment_def)
  have len: "1 < length (fst (cellneigh_graph 3 3 1))"
    unfolding g by simp
  have mem: "5 \<in> set (segment (fst (cellneigh_graph 3 3 1)) (snd (cellneigh_graph 3 3 1)) 1)"
    unfolding s1 by simp
  show ?thesis
    using adjacency_symmetric [OF len mem] s1 s5 by simp
qed

lemma graph_no_self_loop:
  assumes "a < length (fst (cellneigh_graph ncol nrow rank))"
  shows "int a \<notin> set (segment (fst (cellneigh_graph ncol nrow rank))
                       (snd (cellneigh_graph ncol nrow rank)) a)"
proof (cases "rank < 0")
  case True
  then show ?thesis
    by (simp add: adj_empty_negative_rank segment_Nil)
next
  case False
  then have rank: "0 \<le> rank" by simp
  let ?i = "int a div ncol" and ?j = "int a mod ncol"
  have a: "a < nat nrow * nat ncol"
    using assms(1) by (simp add: length_nneigh)
  note ij = cells_nth_decode(2-5) [OF a]
  show ?thesis
  proof
    assume "int a \<in> set (segment (fst (cellneigh_graph ncol nrow rank))
                       (snd (cellneigh_graph ncol nrow rank)) a)"
    then have "int a \<in> set (cell_neigh ncol nrow (around rank) (?i, ?j))"
      by (simp add: segment_graph [OF rank a])
    then obtain cy cx where v: "int a = cy * ncol + cx"
      and cx: "0 \<le> cx" "cx < ncol"
      and ne: "\<not> (cy = ?i \<and> cx = ?j)"
      unfolding set_cell_neigh by blast
    have "int a = ?i * ncol + ?j"
      by simp
    then have "cy * ncol + cx = ?i * ncol + ?j"
      by (simp only: v [symmetric])
    then have "cy = ?i \<and> cx = ?j"
      using cx ij(3,4) by (rule cell_id_inj)
    with ne show False by simp
  qed
qed

subsection \<open>The scan of \<^verbatim>\<open>cellneigh_ctry\<close> by cell\<close>

lemma ctry_loop_cx_Inr:
  "ctry_loop_cx msk ncol i j cy Jprim (adj, n) = Inr (adj', n') \<Longrightarrow>
   adj' = adj @ kept_row msk ncol i j cy Jprim
   \<and> n' = n + int (length (kept_row msk ncol i j cy Jprim))"
proof (induction Jprim arbitrary: adj n)
  case Nil
  then show ?case by (simp add: kept_row_def)
next
  case (Cons cx Jprim)
  show ?case
  proof (cases "\<not> (cy = i \<and> cx = j)")
    case True
    with Cons.prems obtain v where v: "mask_at msk cx cy = Inr v"
      by (auto split: sum.splits)
    show ?thesis
    proof (cases "v = 1")
      case one: True
      with True v Cons.prems have
        "ctry_loop_cx msk ncol i j cy Jprim (adj @ [cy * ncol + cx], n + 1) = Inr (adj', n')"
        by simp
      from Cons.IH [OF this] True v one show ?thesis
        by (simp add: kept_row_def)
    next
      case other: False
      with True v Cons.prems have
        "ctry_loop_cx msk ncol i j cy Jprim (adj, n) = Inr (adj', n')"
        by simp
      from Cons.IH [OF this] True v other show ?thesis
        by (simp add: kept_row_def)
    qed
  next
    case False
    with Cons.prems have "ctry_loop_cx msk ncol i j cy Jprim (adj, n) = Inr (adj', n')"
      by simp
    from Cons.IH [OF this] False show ?thesis
      by (simp add: kept_row_def)
  qed
qed

lemma ctry_loop_cy_Inr:
  "ctry_loop_cy msk ncol i j Iprim Jprim (adj, n) = Inr (adj', n') \<Longrightarrow>
   adj' = adj @ kept msk ncol i j Iprim Jprim
   \<and> n' = n + int (length (kept msk ncol i j Iprim Jprim))"
proof (induction Iprim arbitrary: adj n)
  case Nil
  then show ?case by (simp add: kept_def)
next
  case (Cons cy Iprim)
  from Cons.prems obtain adj1 n1 where
    cx: "ctry_loop_cx msk ncol i j cy Jprim (adj, n) = Inr (adj1, n1)" and
    cy: "ctry_loop_cy msk ncol i j Iprim Jprim (adj1, n1) = Inr (adj', n')"
    by (auto split: sum.splits)
  show ?case
    using ctry_loop_cx_Inr [OF cx] Cons.IH [OF cy] by (simp add: kept_def)
qed

lemma ctry_loop_j_Inr:
  "ctry_loop_j msk ncol nrow ar i js (nneigh, adj) = Inr (nneigh', adj') \<Longrightarrow>
   nneigh' = nneigh @ map (\<lambda>j. int (length (cell_kept msk ncol nrow ar (i, j))))
                        (filter (\<lambda>j. mask_at msk i j = Inr 1) js)
   \<and> adj' = adj @ concat (map (\<lambda>j. cell_kept msk ncol nrow ar (i, j))
                            (filter (\<lambda>j. mask_at msk i j = Inr 1) js))"
proof (induction js arbitrary: nneigh adj)
  case Nil
  then show ?case by simp
next
  case (Cons j js)
  from Cons.prems obtain v where v: "mask_at msk i j = Inr v"
    by (auto split: sum.splits)
  show ?case
  proof (cases "v = 1")
    case True
    with Cons.prems v obtain adj1 n1 where
      cy: "ctry_loop_cy msk ncol i j (window ar i nrow) (window ar j ncol) (adj, 0) = Inr (adj1, n1)" and
      rest: "ctry_loop_j msk ncol nrow ar i js (nneigh @ [n1], adj1) = Inr (nneigh', adj')"
      by (auto simp: Let_def split: sum.splits)
    show ?thesis
      using ctry_loop_cy_Inr [OF cy] Cons.IH [OF rest] v True
      by (simp add: cell_kept_def)
  next
    case False
    with Cons.prems v have "ctry_loop_j msk ncol nrow ar i js (nneigh, adj) = Inr (nneigh', adj')"
      by simp
    from Cons.IH [OF this] v False show ?thesis by simp
  qed
qed

lemma ctry_loop_i_Inr:
  "ctry_loop_i msk ncol nrow ar is (nneigh, adj) = Inr (nneigh', adj') \<Longrightarrow>
   nneigh' = nneigh @ map (\<lambda>c. int (length (cell_kept msk ncol nrow ar c)))
       (concat (map (\<lambda>i. map (\<lambda>j. (i, j)) (filter (\<lambda>j. mask_at msk i j = Inr 1) [0..ncol - 1])) is))
   \<and> adj' = adj @ concat (map (cell_kept msk ncol nrow ar)
       (concat (map (\<lambda>i. map (\<lambda>j. (i, j)) (filter (\<lambda>j. mask_at msk i j = Inr 1) [0..ncol - 1])) is)))"
proof (induction "is" arbitrary: nneigh adj)
  case Nil
  then show ?case by simp
next
  case (Cons i "is")
  from Cons.prems obtain nn1 adj1 where
    j: "ctry_loop_j msk ncol nrow ar i [0..ncol - 1] (nneigh, adj) = Inr (nn1, adj1)" and
    rest: "ctry_loop_i msk ncol nrow ar is (nn1, adj1) = Inr (nneigh', adj')"
    by (auto split: sum.splits)
  show ?case
    using ctry_loop_j_Inr [OF j] Cons.IH [OF rest] by (simp add: comp_def)
qed

lemma ctry_scan_Inr:
  assumes "ctry_scan ncol nrow rank msk = Inr (nneigh, adj)"
  shows "nneigh = map (\<lambda>c. int (length (cell_kept msk ncol nrow (around rank) c)))
                    (ctry_cells msk ncol nrow)"
    and "adj = concat (map (cell_kept msk ncol nrow (around rank)) (ctry_cells msk ncol nrow))"
  using ctry_loop_i_Inr [of msk ncol nrow "around rank" "[0..nrow - 1]" "[]" "[]" nneigh adj] assms
  by (simp_all add: ctry_scan_def ctry_cells_def)

lemma mask_at_shape:
  assumes "mask_shape msk nrow ncol" "0 \<le> y" "y < nrow" "0 \<le> x" "x < ncol"
  shows "mask_at msk y x = Inr (msk ! nat y ! nat x)"
proof -
  have y: "nat y < length msk"
    using assms by (auto simp: mask_shape_def)
  then have "msk ! nat y \<in> set msk" by simp
  then have "int (length (msk ! nat y)) = ncol"
    using assms(1) by (simp add: mask_shape_def list_all_iff)
  with assms y show ?thesis
    by (simp add: mask_at_def py_index_def Let_def mask_shape_def)
qed

lemma row_length_shape:
  assumes "mask_shape msk nrow ncol" "0 \<le> y" "y < nrow"
  shows "int (length (msk ! nat y)) = ncol"
proof -
  have "nat y < length msk"
    using assms by (auto simp: mask_shape_def)
  then have "msk ! nat y \<in> set msk" by simp
  then show ?thesis
    using assms(1) by (simp add: mask_shape_def list_all_iff)
qed

lemma concat_if_filter:
  "concat (map (\<lambda>x. if c x then [f x] else []) xs) = map f (filter c xs)"
  by (induction xs) simp_all

lemma np_where_shape:
  assumes "mask_shape msk nrow ncol"
  shows "np_where msk = (map fst (ctry_cells msk ncol nrow), map snd (ctry_cells msk ncol nrow))"
proof -
  have len: "int (length msk) = nrow"
    using assms by (simp add: mask_shape_def)
  have row: "concat (map (\<lambda>x. if msk ! nat y ! nat x = 1 then [(y, x)] else [])
                 [0..int (length (msk ! nat y)) - 1]) =
             map (\<lambda>j. (y, j)) (filter (\<lambda>j. mask_at msk y j = Inr 1) [0..ncol - 1])"
    if "y \<in> set [0..nrow - 1]" for y
  proof -
    from that have y: "0 \<le> y" "y < nrow" by simp_all
    have "filter (\<lambda>x. msk ! nat y ! nat x = 1) [0..ncol - 1] =
          filter (\<lambda>j. mask_at msk y j = Inr 1) [0..ncol - 1]"
      using assms y by (intro filter_cong [OF refl]) (simp add: mask_at_shape)
    then show ?thesis
      by (simp add: row_length_shape [OF assms y] concat_if_filter)
  qed
  have "concat (map (\<lambda>y. concat (map (\<lambda>x. if msk ! nat y ! nat x = 1 then [(y, x)] else [])
                 [0..int (length (msk ! nat y)) - 1])) [0..nrow - 1]) =
        ctry_cells msk ncol nrow"
    unfolding ctry_cells_def
    by (intro arg_cong [where f = concat] map_cong [OF refl] row)
  then show ?thesis
    by (simp add: np_where_def len Let_def)
qed

lemma included_cells_shape:
  assumes "mask_shape msk nrow ncol"
  shows "included_cells ncol msk = map (\<lambda>c. fst c * ncol + snd c) (ctry_cells msk ncol nrow)"
  by (simp add: included_cells_def np_where_shape [OF assms] zip_map_fst_snd split_def)

lemma set_ctry_cells:
  "c \<in> set (ctry_cells msk ncol nrow) \<Longrightarrow>
   0 \<le> fst c \<and> fst c < nrow \<and> 0 \<le> snd c \<and> snd c < ncol \<and> mask_at msk (fst c) (snd c) = Inr 1"
  by (auto simp: ctry_cells_def)

lemma window_range: "v \<in> set (window ar i n) \<Longrightarrow> 0 \<le> v \<and> v < n"
  by (auto simp: window_def)

lemma set_cell_kept:
  assumes "v \<in> set (cell_kept msk ncol nrow ar c)"
  shows "\<exists>cy cx. v = cy * ncol + cx \<and> 0 \<le> cy \<and> cy < nrow \<and> 0 \<le> cx \<and> cx < ncol
     \<and> \<not> (cy = fst c \<and> cx = snd c) \<and> mask_at msk cx cy = Inr 1"
proof -
  from assms obtain cy cx where
    cy: "cy \<in> set (window ar (fst c) nrow)" and cx: "cx \<in> set (window ar (snd c) ncol)"
    and v: "v = cy * ncol + cx" and ne: "\<not> (cy = fst c \<and> cx = snd c)"
    and m: "mask_at msk cx cy = Inr 1"
    by (auto simp: cell_kept_def kept_def kept_row_def)
  from window_range [OF cy] window_range [OF cx] v ne m show ?thesis
    by blast
qed

lemma comprehension_ndarray:
  "comprehension (ndarray_index cell_in) adj = Inr adj_rank \<Longrightarrow> adj = [] \<and> adj_rank = []"
  by (cases adj) (simp_all add: ndarray_index_def)

lemma list_index_Inr:
  "list_index cs v = Inr k \<Longrightarrow> 0 \<le> k \<and> nat k < length cs \<and> cs ! nat k = v"
proof (induction cs arbitrary: k)
  case Nil
  then show ?case by simp
next
  case (Cons c cs)
  show ?case
  proof (cases "c = v")
    case True
    with Cons.prems show ?thesis by simp
  next
    case False
    with Cons.prems obtain k' where k': "list_index cs v = Inr k'" "k = k' + 1"
      by (auto split: sum.splits)
    from Cons.IH [OF k'(1)] k'(2) show ?thesis
      by (simp add: nat_add_distrib)
  qed
qed

lemma comprehension_Inr:
  "comprehension f xs = Inr ys \<Longrightarrow> list_all2 (\<lambda>x y. f x = Inr y) xs ys"
  by (induction xs arbitrary: ys) (auto split: sum.splits)

lemma segment_list_all2:
  assumes "list_all2 P xs ys" "y \<in> set (segment nneigh ys p)"
  shows "\<exists>x \<in> set (segment nneigh xs p). P x y"
proof -
  have "list_all2 P (segment nneigh xs p) (segment nneigh ys p)"
    unfolding segment_def using assms(1) by (intro list_all2_takeI list_all2_dropI)
  with assms(2) show ?thesis
    by (metis in_set_conv_nth list_all2_conv_all_nth)
qed

lemma scan_no_self_loop:
  assumes shape: "mask_shape msk nrow ncol"
    and scan: "ctry_scan ncol nrow rank msk = Inr (nneigh, adj)"
    and p: "p < length nneigh"
  shows "length nneigh = length (included_cells ncol msk)"
    and "included_cells ncol msk ! p \<notin> set (segment nneigh adj p)"
proof -
  let ?cs = "ctry_cells msk ncol nrow"
  note eqs = ctry_scan_Inr [OF scan]
  show "length nneigh = length (included_cells ncol msk)"
    by (simp add: eqs(1) included_cells_shape [OF shape])
  have pc: "p < length ?cs"
    using p by (simp add: eqs(1))
  have seg: "segment nneigh adj p = cell_kept msk ncol nrow (around rank) (?cs ! p)"
    unfolding eqs using pc by (rule segment_concat)
  have c: "?cs ! p \<in> set ?cs"
    using pc by simp
  note r = set_ctry_cells [OF c]
  have self: "included_cells ncol msk ! p = fst (?cs ! p) * ncol + snd (?cs ! p)"
    using pc by (simp add: included_cells_shape [OF shape])
  show "included_cells ncol msk ! p \<notin> set (segment nneigh adj p)"
  proof
    assume "included_cells ncol msk ! p \<in> set (segment nneigh adj p)"
    then have "fst (?cs ! p) * ncol + snd (?cs ! p) \<in> set (cell_kept msk ncol nrow (around rank) (?cs ! p))"
      by (simp only: seg self)
    from set_cell_kept [OF this] obtain cy cx where
      v: "fst (?cs ! p) * ncol + snd (?cs ! p) = cy * ncol + cx"
      and cx: "0 \<le> cx" "cx < ncol"
      and ne: "\<not> (cy = fst (?cs ! p) \<and> cx = snd (?cs ! p))"
      by blast
    have "cy = fst (?cs ! p) \<and> cx = snd (?cs ! p)"
      using cell_id_inj [OF v [symmetric] cx] r by blast
    with ne show False by simp
  qed
qed

lemma ctry_loop_j_skip:
  "(\<And>j. j \<in> set js \<Longrightarrow> \<exists>v. mask_at msk i j = Inr v \<and> v \<noteq> 1) \<Longrightarrow>
   ctry_loop_j msk ncol nrow ar i js (nneigh, adj) = Inr (nneigh, adj)"
proof (induction js)
  case Nil
  then show ?case by simp
next
  case (Cons j js)
  from Cons.prems [of j] obtain v where "mask_at msk i j = Inr v" "v \<noteq> 1"
    by auto
  moreover have "ctry_loop_j msk ncol nrow ar i js (nneigh, adj) = Inr (nneigh, adj)"
    using Cons.prems by (intro Cons.IH) simp
  ultimately show ?case by simp
qed

lemma ctry_loop_i_skip:
  "(\<And>i j. i \<in> set is \<Longrightarrow> j \<in> set [0..ncol - 1] \<Longrightarrow> \<exists>v. mask_at msk i j = Inr v \<and> v \<noteq> 1) \<Longrightarrow>
   ctry_loop_i msk ncol nrow ar is (nneigh, adj) = Inr (nneigh, adj)"
proof (induction "is")
  case Nil
  then show ?case by simp
next
  case (Cons i "is")
  have "ctry_loop_j msk ncol nrow ar i [0..ncol - 1] (nneigh, adj) = Inr (nneigh, adj)"
    using Cons.prems by (intro ctry_loop_j_skip) simp
  moreover have "ctry_loop_i msk ncol nrow ar is (nneigh, adj) = Inr (nneigh, adj)"
    using Cons.prems by (intro Cons.IH) simp
  ultimately show ?case by simp
qed

lemma mask_at_no_ones:
  assumes "mask_shape msk nrow ncol" "\<forall>row \<in> set msk. 1 \<notin> set row"
    and "0 \<le> i" "i < nrow" "0 \<le> j" "j < ncol"
  shows "\<exists>v. mask_at msk i j = Inr v \<and> v \<noteq> 1"
proof -
  have i: "nat i < length msk"
    using assms by (auto simp: mask_shape_def)
  then have row: "msk ! nat i \<in> set msk" by simp
  have "nat j < length (msk ! nat i)"
    using row_length_shape [OF assms(1,3,4)] assms(5,6) by simp
  then have "msk ! nat i ! nat j \<in> set (msk ! nat i)" by simp
  with row assms(2) have "msk ! nat i ! nat j \<noteq> 1" by auto
  then show ?thesis
    by (simp add: mask_at_shape [OF assms(1,3-6)])
qed

lemma no_ones_graph:
  assumes "mask_shape msk nrow ncol" "\<forall>row \<in> set msk. 1 \<notin> set row"
  shows "cellneigh_ctry_graph ncol nrow rank msk = Inr ([], [], [])"
proof -
  have skip: "\<exists>v. mask_at msk i j = Inr v \<and> v \<noteq> 1"
    if "i \<in> set [0..nrow - 1]" "j \<in> set [0..ncol - 1]" for i j
    using that by (intro mask_at_no_ones [OF assms]) simp_all
  have scan: "ctry_scan ncol nrow rank msk = Inr ([], [])"
    unfolding ctry_scan_def by (intro ctry_loop_i_skip skip)
  have "filter (\<lambda>j. mask_at msk i j = Inr 1) [0..ncol - 1] = []" if "i \<in> set [0..nrow - 1]" for i
    using skip [OF that] by (fastforce simp: filter_empty_conv)
  then have "ctry_cells msk ncol nrow = []"
    by (simp add: ctry_cells_def)
  then have "included_cells ncol msk = []"
    by (simp add: included_cells_shape [OF assms(1)])
  with scan show ?thesis
    by (simp add: cellneigh_ctry_graph_def)
qed

text \<open>
  C9. On a mask of the shape of the grid with no entry equal to 1, the masked builder
  raises nothing and returns three empty sequences; so does the call of
  \<^verbatim>\<open>cellneigh_ctry\<close> whose rasterization gives such a mask.
\<close>

theorem no_included_cells:
  "(mask_shape msk nrow ncol \<and> (\<forall>row \<in> set msk. 1 \<notin> set row) \<longrightarrow>
      cellneigh_ctry_graph ncol nrow rank msk = Inr ([], [], []))
   \<and> (resolve_region raster region = (out1, Inr b)
        \<and> grid_dims ceildiv b csize = (out2, Inr (ncol', nrow'))
        \<and> mask_shape (rasterize csize b) nrow' ncol'
        \<and> (\<forall>row \<in> set (rasterize csize b). 1 \<notin> set row) \<longrightarrow>
      snd (cellneigh_ctry ceildiv raster region rasterize csize rank) = Inr ([], [], []))"
proof (intro conjI impI)
  assume "mask_shape msk nrow ncol \<and> (\<forall>row \<in> set msk. 1 \<notin> set row)"
  then show "cellneigh_ctry_graph ncol nrow rank msk = Inr ([], [], [])"
    by (simp add: no_ones_graph)
next
  assume h: "resolve_region raster region = (out1, Inr b)
        \<and> grid_dims ceildiv b csize = (out2, Inr (ncol', nrow'))
        \<and> mask_shape (rasterize csize b) nrow' ncol'
        \<and> (\<forall>row \<in> set (rasterize csize b). 1 \<notin> set row)"
  then have "cellneigh_ctry_graph ncol' nrow' rank (rasterize csize b) = Inr ([], [], [])"
    by (intro no_ones_graph) simp_all
  with h show "snd (cellneigh_ctry ceildiv raster region rasterize csize rank) = Inr ([], [], [])"
    by (simp add: cellneigh_ctry_def bind_out_def)
qed

theorem no_included_cells_witness:
  "cellneigh_ctry_graph 3 2 1 [[0, 0, 0], [0, 2, 0]] = Inr ([], [], [])
   \<and> snd (cellneigh_ctry ceildiv_exact None (Some [0, 30000, 0, 20000])
            (\<lambda>c b. [[0, 0, 0], [0, 0, 0]]) 10 1) =
       Inr ([], [], [])"
proof -
  have r: "resolve_region None (Some [0, 30000, 0, 20000]) = ([], Inr (0, 30000, 0, 20000))"
    by (simp add: resolve_region_def)
  have g: "grid_dims ceildiv_exact (0, 30000, 0, 20000) 10 =
      ([Compute_number 10, Cells 6 2 3], Inr (3, 2))"
    by (simp add: grid_dims_def ceildiv_exact_def)
  show ?thesis
    using no_included_cells [where msk = "[[0, 0, 0], [0, 2, 0]]" and nrow = 2 and ncol = 3
        and rank = 1 and raster = None and region = "Some [0, 30000, 0, 20000]"
        and ?out1.0 = "[]" and b = "(0, 30000, 0, 20000)" and ceildiv = ceildiv_exact
        and csize = 10 and ?out2.0 = "[Compute_number 10, Cells 6 2 3]" and ncol' = 3
        and nrow' = 2 and rasterize = "\<lambda>c b. [[0, 0, 0], [0, 0, 0]]"] r g
    by (simp add: mask_shape_def)
qed

lemma translated_no_self_loop:
  assumes self: "cell_in ! p \<notin> set (segment nneigh adj p)"
    and t: "comprehension (list_index cell_in) adj = Inr adj_rank"
  shows "int p \<notin> set (segment nneigh adj_rank p)"
proof
  assume m: "int p \<in> set (segment nneigh adj_rank p)"
  from segment_list_all2 [OF comprehension_Inr [OF t] m] obtain v where
    v: "v \<in> set (segment nneigh adj p)" and k: "list_index cell_in v = Inr (int p)"
    by blast
  from list_index_Inr [OF k] have "cell_in ! p = v"
    by simp
  with v self show False by simp
qed

text \<open>
  C7. No segment holds its own cell. For \<^verbatim>\<open>cellneigh\<close>: the segment of cell \<open>a\<close> never
  holds \<open>a\<close>, for every grid and rank. For \<^verbatim>\<open>cellneigh_ctry\<close> on a mask of the shape
  of the grid: the segment the scan builds for the included cell at position \<open>p\<close>
  never holds the id of that cell; after a translation of the ids to positions in
  the list of included cells (\<open>list_index\<close>) it never holds \<open>p\<close>; and no result the
  function returns has \<open>p\<close> in the segment at position \<open>p\<close> (as the code is written,
  a returned adjacency is empty).
\<close>

theorem no_self_loops:
  "(\<forall>a < length (fst (cellneigh_graph ncol nrow rank)).
      int a \<notin> set (segment (fst (cellneigh_graph ncol nrow rank))
                       (snd (cellneigh_graph ncol nrow rank)) a))
   \<and> (\<forall>nneigh adj p.
        mask_shape msk nrow ncol \<and> ctry_scan ncol nrow rank msk = Inr (nneigh, adj)
        \<and> p < length nneigh \<longrightarrow>
          included_cells ncol msk ! p \<notin> set (segment nneigh adj p)
          \<and> (\<forall>adj_rank. comprehension (list_index (included_cells ncol msk)) adj = Inr adj_rank \<longrightarrow>
                int p \<notin> set (segment nneigh adj_rank p)))
   \<and> (\<forall>nneigh adj_rank cell_in p.
        cellneigh_ctry_graph ncol nrow rank msk = Inr (nneigh, adj_rank, cell_in)
        \<and> p < length nneigh \<longrightarrow>
          int p \<notin> set (segment nneigh adj_rank p))"
proof (intro conjI allI impI)
  fix a
  assume "a < length (fst (cellneigh_graph ncol nrow rank))"
  then show "int a \<notin> set (segment (fst (cellneigh_graph ncol nrow rank))
                       (snd (cellneigh_graph ncol nrow rank)) a)"
    by (rule graph_no_self_loop)
next
  fix nneigh adj p
  assume h: "mask_shape msk nrow ncol \<and> ctry_scan ncol nrow rank msk = Inr (nneigh, adj)
        \<and> p < length nneigh"
  then have "mask_shape msk nrow ncol" "ctry_scan ncol nrow rank msk = Inr (nneigh, adj)"
    "p < length nneigh"
    by simp_all
  then show "included_cells ncol msk ! p \<notin> set (segment nneigh adj p)"
    by (rule scan_no_self_loop(2))
next
  fix nneigh adj p adj_rank
  assume h: "mask_shape msk nrow ncol \<and> ctry_scan ncol nrow rank msk = Inr (nneigh, adj)
        \<and> p < length nneigh"
    and t: "comprehension (list_index (included_cells ncol msk)) adj = Inr adj_rank"
  from h have "mask_shape msk nrow ncol" "ctry_scan ncol nrow rank msk = Inr (nneigh, adj)"
    "p < length nneigh"
    by simp_all
  then have "included_cells ncol msk ! p \<notin> set (segment nneigh adj p)"
    by (rule scan_no_self_loop(2))
  then show "int p \<notin> set (segment nneigh adj_rank p)"
    using t by (rule translated_no_self_loop)
next
  fix nneigh adj_rank cell_in p
  assume h: "cellneigh_ctry_graph ncol nrow rank msk = Inr (nneigh, adj_rank, cell_in)
        \<and> p < length nneigh"
  then have "cellneigh_ctry_graph ncol nrow rank msk = Inr (nneigh, adj_rank, cell_in)"
    by simp
  from cellneigh_ctry_graph_Inr [OF this] obtain adj where
    "comprehension (ndarray_index (included_cells ncol msk)) adj = Inr adj_rank"
    by blast
  from comprehension_ndarray [OF this] have "adj_rank = []"
    by simp
  then show "int p \<notin> set (segment nneigh adj_rank p)"
    by (simp add: segment_Nil)
qed

theorem no_self_loops_witness:
  "segment (fst (cellneigh_graph 3 3 1)) (snd (cellneigh_graph 3 3 1)) 4 = [0, 1, 2, 3, 5, 6, 7, 8]
   \<and> int 4 \<notin> set (segment (fst (cellneigh_graph 3 3 1)) (snd (cellneigh_graph 3 3 1)) 4)
   \<and> ctry_scan 3 3 1 [[1, 0, 1], [0, 1, 0], [1, 0, 1]] =
        Inr ([1, 1, 4, 1, 1], [4, 4, 0, 2, 6, 8, 4, 4])
   \<and> included_cells 3 [[1, 0, 1], [0, 1, 0], [1, 0, 1]] = [0, 2, 4, 6, 8]
   \<and> segment [1, 1, 4, 1, 1] [4, 4, 0, 2, 6, 8, 4, 4 :: int] 2 = [0, 2, 6, 8]
   \<and> included_cells 3 [[1, 0, 1], [0, 1, 0], [1, 0, 1]] ! 2 \<notin>
        set (segment [1, 1, 4, 1, 1] [4, 4, 0, 2, 6, 8, 4, 4] 2)
   \<and> comprehension (list_index [0, 2, 4, 6, 8]) [4, 4, 0, 2, 6, 8, 4, 4] =
        Inr [2, 2, 0, 1, 3, 4, 2, 2]
   \<and> int 2 \<notin> set (segment [1, 1, 4, 1, 1] [2, 2, 0, 1, 3, 4, 2, 2] 2)
   \<and> cellneigh_ctry_graph 2 2 1 [[1, 0], [0, 0]] = Inr ([0], [], [0])
   \<and> int 0 \<notin> set (segment [0] ([] :: int list) 0)"
proof -
  let ?M = "[[1, 0, 1], [0, 1, 0], [1, 0, 1]] :: int list list"
  have g: "cellneigh_graph 3 3 1 = ([3, 5, 3, 5, 8, 5, 3, 5, 3],
    [1, 3, 4, 0, 2, 3, 4, 5, 1, 4, 5, 0, 1, 4, 6, 7, 0, 1, 2, 3, 5, 6, 7, 8,
     1, 2, 4, 7, 8, 3, 4, 7, 3, 4, 5, 6, 8, 4, 5, 7])"
    by code_simp
  have s4: "segment (fst (cellneigh_graph 3 3 1)) (snd (cellneigh_graph 3 3 1)) 4 =
      [0, 1, 2, 3, 5, 6, 7, 8]"
    unfolding g by (simp add: segment_def)
  have len: "4 < length (fst (cellneigh_graph 3 3 1))"
    unfolding g by simp
  have scan: "ctry_scan 3 3 1 ?M = Inr ([1, 1, 4, 1, 1], [4, 4, 0, 2, 6, 8, 4, 4])"
    by code_simp
  have inc: "included_cells 3 ?M = [0, 2, 4, 6, 8]"
    by code_simp
  have tr: "comprehension (list_index (included_cells 3 ?M)) [4, 4, 0, 2, 6, 8, 4, 4] =
        Inr [2, 2, 0, 1, 3, 4, 2, 2]"
    by code_simp
  have sh: "mask_shape ?M 3 3"
    by (simp add: mask_shape_def)
  have seg: "segment [1, 1, 4, 1, 1] [4, 4, 0, 2, 6, 8, 4, 4 :: int] 2 = [0, 2, 6, 8]"
    by (simp add: segment_def)
  have fin: "cellneigh_ctry_graph 2 2 1 [[1, 0], [0, 0]] = Inr ([0], [], [0])"
    by code_simp
  note T = no_self_loops [of 3 3 1 ?M]
  note U = no_self_loops [of 2 2 1 "[[1, 0], [0, 0]]"]
  have c1: "int 4 \<notin> set (segment (fst (cellneigh_graph 3 3 1)) (snd (cellneigh_graph 3 3 1)) 4)"
    using T len by blast
  have p: "(2::nat) < length [1, 1, 4, 1, 1 :: int]"
    by simp
  have c2: "included_cells 3 ?M ! 2 \<notin> set (segment [1, 1, 4, 1, 1] [4, 4, 0, 2, 6, 8, 4, 4] 2)"
    using T sh scan p by blast
  have c3: "int 2 \<notin> set (segment [1, 1, 4, 1, 1] [2, 2, 0, 1, 3, 4, 2, 2] 2)"
    using T sh scan p tr by blast
  have q: "(0::nat) < length [0 :: int]"
    by simp
  have c4: "int 0 \<notin> set (segment [0] ([] :: int list) 0)"
    using U fin q by blast
  from tr have tr': "comprehension (list_index [0, 2, 4, 6, 8]) [4, 4, 0, 2, 6, 8, 4, 4] =
        Inr [2, 2, 0, 1, 3, 4, 2, 2]"
    by (simp only: inc)
  show ?thesis
    by (intro conjI s4 c1 scan inc seg c2 tr' c3 fin c4)
qed

end
